theory Spec2Isabelle
  imports Main "HOL-Library.Word" "HOL-Library.Sublist" "HOL-Library.AList"
begin

section \<open>JavaScript strings and values\<close>

text \<open>
  A JavaScript string is a sequence of 16-bit code units. String literals of
  \<^verbatim>\<open>src/api/index.js\<close> are all ASCII; \<open>ascii\<close> embeds them.
\<close>

type_synonym jschar = "16 word"
type_synonym jsstring = "jschar list"

definition ascii :: "string \<Rightarrow> jsstring" where
  "ascii s = map (\<lambda>c. of_nat (of_char c)) s"

text \<open>
  The values the code passes through \<^verbatim>\<open>||\<close> and \<^verbatim>\<open>&&\<close>: a string,
  \<^verbatim>\<open>undefined\<close> (a missing property or parameter) or \<^verbatim>\<open>null\<close>.
  Of these, only a non-empty string is truthy.
\<close>

datatype jsval = JUndefined | JNull | JStr jsstring

fun truthy :: "jsval \<Rightarrow> bool" where
  "truthy (JStr s) = (s \<noteq> [])"
| "truthy JUndefined = False"
| "truthy JNull = False"

definition js_or :: "jsval \<Rightarrow> jsval \<Rightarrow> jsval" where
  "js_or a b = (if truthy a then a else b)"

text \<open>\<^verbatim>\<open>String.prototype.trim\<close> strips WhiteSpace and LineTerminator code units.\<close>

definition is_space :: "jschar \<Rightarrow> bool" where
  "is_space c \<longleftrightarrow>
     c \<in> {0x0009, 0x000A, 0x000B, 0x000C, 0x000D, 0x0020, 0x00A0, 0x1680,
          0x2000, 0x2001, 0x2002, 0x2003, 0x2004, 0x2005, 0x2006, 0x2007,
          0x2008, 0x2009, 0x200A, 0x2028, 0x2029, 0x202F, 0x205F, 0x3000, 0xFEFF}"

definition trim :: "jsstring \<Rightarrow> jsstring" where
  "trim s = rev (dropWhile is_space (rev (dropWhile is_space s)))"

text \<open>\<^verbatim>\<open>s.startsWith(p)\<close>, \<^verbatim>\<open>s.substring(n)\<close>, \<^verbatim>\<open>s.substring(0, n)\<close>
  and \<^verbatim>\<open>s.indexOf(c)\<close> for a one-character \<open>c\<close> (\<open>-1\<close> when absent).\<close>

definition startsWith :: "jsstring \<Rightarrow> jsstring \<Rightarrow> bool" where
  "startsWith s p = prefix p s"

definition substring_from :: "jsstring \<Rightarrow> nat \<Rightarrow> jsstring" where
  "substring_from s n = drop n s"

definition substring_to :: "jsstring \<Rightarrow> nat \<Rightarrow> jsstring" where
  "substring_to s n = take n s"

definition indexOf :: "jsstring \<Rightarrow> jschar \<Rightarrow> int" where
  "indexOf s c = (if c \<in> set s then int (length (takeWhile (\<lambda>x. x \<noteq> c) s)) else - 1)"

text \<open>\<^verbatim>\<open>String(n)\<close> for a non-negative integer: its decimal digits.\<close>

fun String_of_nat :: "nat \<Rightarrow> jsstring" where
  "String_of_nat n =
     (if n < 10 then [of_nat (48 + n)]
      else String_of_nat (n div 10) @ [of_nat (48 + n mod 10)])"

declare String_of_nat.simps [simp del]

section \<open>The playlist parser\<close>

subsection \<open>Splitting into lines\<close>

text \<open>
  \<^verbatim>\<open>text.split(/\r?\n/)\<close>: a line ends at a line feed, and a carriage return
  right before that line feed belongs to the separator. A carriage return elsewhere
  stays in its line. The result always has at least one line.
\<close>

definition CR :: jschar where "CR = 0x000D"
definition LF :: jschar where "LF = 0x000A"

fun split_lines :: "jsstring \<Rightarrow> jsstring list" where
  "split_lines [] = [[]]"
| "split_lines (c # cs) =
     (if c = CR \<and> cs \<noteq> [] \<and> hd cs = LF then [] # split_lines (tl cs)
      else if c = LF then [] # split_lines cs
      else (case split_lines cs of
              l # ls \<Rightarrow> (c # l) # ls
            | [] \<Rightarrow> [[c]]))"

subsection \<open>Attribute scanning\<close>

text \<open>
  \<^verbatim>\<open>/(\w[\w-]*)=\"([^\"]*)\"/g\<close> without the \<open>i\<close> or \<open>u\<close> flag: \<^verbatim>\<open>\w\<close> is
  \<open>[A-Za-z0-9_]\<close>. \<open>match_here\<close> matches the pattern at the head of the string
  and returns key, value and the text after the match. Both starred classes are
  greedy, and the character required after each lies outside the class, so
  backtracking into a shorter run cannot succeed: the runs are maximal.
\<close>

definition is_word :: "jschar \<Rightarrow> bool" where
  "is_word c \<longleftrightarrow> (0x30 \<le> c \<and> c \<le> 0x39) \<or> (0x41 \<le> c \<and> c \<le> 0x5A) \<or> c = 0x5F
                 \<or> (0x61 \<le> c \<and> c \<le> 0x7A)"

definition HYPHEN :: jschar where "HYPHEN = 0x2D"
definition EQUALS :: jschar where "EQUALS = 0x3D"
definition QUOTE :: jschar where "QUOTE = 0x22"
definition COMMA :: jschar where "COMMA = 0x2C"

definition is_key_char :: "jschar \<Rightarrow> bool" where
  "is_key_char c \<longleftrightarrow> is_word c \<or> c = HYPHEN"

fun match_here :: "jsstring \<Rightarrow> (jsstring \<times> jsstring \<times> jsstring) option" where
  "match_here [] = None"
| "match_here (c # cs) =
     (if is_word c then
        (case dropWhile is_key_char cs of
           e # q # r \<Rightarrow>
             if e = EQUALS \<and> q = QUOTE then
               (case dropWhile (\<lambda>x. x \<noteq> QUOTE) r of
                  [] \<Rightarrow> None
                | _ # rest \<Rightarrow>
                    Some (c # takeWhile is_key_char cs, takeWhile (\<lambda>x. x \<noteq> QUOTE) r, rest))
             else None
         | _ \<Rightarrow> None)
      else None)"

text \<open>\<^verbatim>\<open>re.exec\<close>: the leftmost match at or after the current position.\<close>

fun re_exec :: "jsstring \<Rightarrow> (jsstring \<times> jsstring \<times> jsstring) option" where
  "re_exec [] = None"
| "re_exec (c # cs) =
     (case match_here (c # cs) of
        Some m \<Rightarrow> Some m
      | None \<Rightarrow> re_exec cs)"

lemma match_here_shorter: "match_here s = Some (k, v, rest) \<Longrightarrow> length rest < length s"
proof (cases s)
  case Nil
  then show "match_here s = Some (k, v, rest) \<Longrightarrow> ?thesis" by simp
next
  case (Cons c cs)
  assume m: "match_here s = Some (k, v, rest)"
  from m Cons obtain e q r where d: "dropWhile is_key_char cs = e # q # r"
    by (auto split: if_splits list.splits)
  from m Cons d obtain x where d2: "dropWhile (\<lambda>x. x \<noteq> QUOTE) r = x # rest"
    by (auto split: if_splits list.splits)
  have "length (dropWhile (\<lambda>x. x \<noteq> QUOTE) r) \<le> length r"
    by (rule length_dropWhile_le)
  moreover have "length (dropWhile is_key_char cs) \<le> length cs"
    by (rule length_dropWhile_le)
  ultimately show ?thesis using d d2 Cons by simp
qed

lemma re_exec_shorter: "re_exec s = Some (k, v, rest) \<Longrightarrow> length rest < length s"
proof (induction s)
  case Nil
  then show ?case by simp
next
  case (Cons c cs)
  show ?case
  proof (cases "match_here (c # cs)")
    case None
    with Cons show ?thesis by simp
  next
    case (Some m)
    with Cons.prems have "match_here (c # cs) = Some (k, v, rest)" by simp
    then show ?thesis by (rule match_here_shorter)
  qed
qed

text \<open>
  \<^verbatim>\<open>parseAttributes\<close>: the \<^verbatim>\<open>while ((m = re.exec(attrLine)) !== null)\<close> loop.
  The regex's \<open>lastIndex\<close> is the start of the remaining text. The object
  \<open>attrs\<close> is a map; the code reads it only at four keys that
  \<open>Object.prototype\<close> does not define.
\<close>

type_synonym attrs = "jsstring \<rightharpoonup> jsstring"

function attr_loop :: "attrs \<Rightarrow> jsstring \<Rightarrow> attrs" where
  "attr_loop a s =
     (case re_exec s of
        None \<Rightarrow> a
      | Some (k, v, rest) \<Rightarrow> attr_loop (a(k \<mapsto> v)) rest)"
  by pat_completeness auto
termination
  by (relation "measure (\<lambda>(a, s). length s)") (auto dest: re_exec_shorter)

declare attr_loop.simps [simp del]

definition parseAttributes :: "jsstring \<Rightarrow> attrs" where
  "parseAttributes attrLine = attr_loop Map.empty attrLine"

definition get_attr :: "attrs \<Rightarrow> jsstring \<Rightarrow> jsval" where
  "get_attr a k = (case a k of None \<Rightarrow> JUndefined | Some v \<Rightarrow> JStr v)"

subsection \<open>Metadata lines\<close>

definition EXTINF :: jsstring where "EXTINF = ascii ''#EXTINF:''"
definition HASH :: jsstring where "HASH = ascii ''#''"
definition TVG_NAME :: jsstring where "TVG_NAME = ascii ''tvg-name''"
definition TVG_ID :: jsstring where "TVG_ID = ascii ''tvg-id''"
definition TVG_LOGO :: jsstring where "TVG_LOGO = ascii ''tvg-logo''"
definition GROUP_TITLE :: jsstring where "GROUP_TITLE = ascii ''group-title''"
definition Unnamed :: jsstring where "Unnamed = ascii ''Unnamed''"
definition Other :: jsstring where "Other = ascii ''Other''"

text \<open>
  The entry under construction (\<^verbatim>\<open>current\<close>): \<^verbatim>\<open>{ name, title, attrs, url }\<close>.
  \<open>p_name\<close> and \<open>p_url\<close> hold whatever the \<^verbatim>\<open>||\<close> chain and the
  assignments put there, so they are JavaScript values.
\<close>

record pending =
  p_name :: jsval
  p_title :: jsstring
  p_attrs :: attrs
  p_url :: jsval

text \<open>
  Lines 90 to 93: \<open>after\<close> is the line without the marker; \<open>meta\<close> is the text
  before its first comma (all of it when there is none), \<open>title\<close> the text after
  that comma (empty when there is none), both trimmed.
\<close>

definition after_marker :: "jsstring \<Rightarrow> jsstring" where
  "after_marker line = substring_from line (length EXTINF)"

definition meta_of :: "jsstring \<Rightarrow> jsstring" where
  "meta_of line =
     (let after = after_marker line; commaIdx = indexOf after COMMA
      in if commaIdx \<ge> 0 then trim (substring_to after (nat commaIdx)) else trim after)"

definition title_of :: "jsstring \<Rightarrow> jsstring" where
  "title_of line =
     (let after = after_marker line; commaIdx = indexOf after COMMA
      in if commaIdx \<ge> 0 then trim (substring_from after (nat (commaIdx + 1))) else [])"

text \<open>Lines 94 to 100: the new \<^verbatim>\<open>current\<close>. \<^verbatim>\<open>a || b || c || d\<close> associates to the left.\<close>

definition extinf_entry :: "jsstring \<Rightarrow> pending" where
  "extinf_entry line =
     (let title = title_of line; attrs = parseAttributes (meta_of line)
      in \<lparr> p_name = js_or (js_or (js_or (get_attr attrs TVG_NAME) (JStr title))
                              (get_attr attrs TVG_ID)) (JStr Unnamed),
           p_title = title,
           p_attrs = attrs,
           p_url = JNull \<rparr>)"

subsection \<open>The line loop\<close>

text \<open>
  The \<^verbatim>\<open>for\<close> loop of \<^verbatim>\<open>parseM3U\<close> over the remaining lines, with its two
  variables \<^verbatim>\<open>current\<close> and \<^verbatim>\<open>channels\<close>.
\<close>

fun scan_lines :: "pending option \<Rightarrow> pending list \<Rightarrow> jsstring list \<Rightarrow> pending list" where
  "scan_lines current channels [] = channels"
| "scan_lines current channels (raw # rest) =
     (let line = trim raw in
      if line = [] then scan_lines current channels rest
      else if startsWith line EXTINF then scan_lines (Some (extinf_entry line)) channels rest
      else (case current of
              Some c \<Rightarrow>
                if \<not> startsWith line HASH
                then scan_lines None (channels @ [c\<lparr>p_url := JStr line\<rparr>]) rest
                else scan_lines current channels rest
            | None \<Rightarrow> scan_lines current channels rest))"

subsection \<open>Numbering and the result\<close>

record entry =
  entry_id :: jsstring
  stream_id :: nat
  name :: jsval
  title :: jsstring
  tvg_id :: jsval
  tvg_logo :: jsval
  group_title :: jsval
  direct_source :: jsval

definition to_entry :: "pending \<Rightarrow> nat \<Rightarrow> entry" where
  "to_entry c idx =
     \<lparr> entry_id = String_of_nat (idx + 1),
       stream_id = idx + 1,
       name = p_name c,
       title = p_title c,
       tvg_id = js_or (get_attr (p_attrs c) TVG_ID) JNull,
       tvg_logo = js_or (get_attr (p_attrs c) TVG_LOGO) JNull,
       group_title = js_or (get_attr (p_attrs c) GROUP_TITLE) (JStr Other),
       direct_source = p_url c \<rparr>"

text \<open>\<^verbatim>\<open>channels.map((c, idx) => ...)\<close>.\<close>

definition map_idx :: "('a \<Rightarrow> nat \<Rightarrow> 'b) \<Rightarrow> 'a list \<Rightarrow> 'b list" where
  "map_idx f xs = map (\<lambda>(idx, x). f x idx) (enumerate 0 xs)"

definition parse_lines :: "jsstring list \<Rightarrow> entry list" where
  "parse_lines lines = map_idx to_entry (scan_lines None [] lines)"

definition parseM3U :: "jsstring \<Rightarrow> entry list" where
  "parseM3U text = parse_lines (split_lines text)"

section \<open>The access gate\<close>

text \<open>
  \<^verbatim>\<open>str.split(sep)\<close> for a one-character separator. \<^verbatim>\<open>"".split(sep)\<close> is
  \<^verbatim>\<open>[""]\<close>.
\<close>

fun split_on :: "jschar \<Rightarrow> jsstring \<Rightarrow> jsstring list" where
  "split_on sep [] = [[]]"
| "split_on sep (c # cs) =
     (if c = sep then [] # split_on sep cs
      else (case split_on sep cs of
              l # ls \<Rightarrow> (c # l) # ls
            | [] \<Rightarrow> [[c]]))"

definition COLON :: jschar where "COLON = 0x3A"

text \<open>
  \<^verbatim>\<open>ALLOW_USERS\<close> is a \<^verbatim>\<open>Map\<close> from user name to password: an association
  list in insertion order, where \<^verbatim>\<open>map.set\<close> replaces the value of a key already
  there. \<^verbatim>\<open>map.size\<close> is its length and \<^verbatim>\<open>map.get\<close> is \<open>map_of\<close>
  (\<^verbatim>\<open>undefined\<close> is \<open>None\<close>).
\<close>

type_synonym allow_users = "(jsstring \<times> jsstring) list"

text \<open>
  One step of the \<^verbatim>\<open>forEach\<close>: \<^verbatim>\<open>[u, p] = pair.split(":")\<close> takes the first
  two pieces, \<open>p\<close> being \<^verbatim>\<open>undefined\<close> when there is only one;
  \<^verbatim>\<open>p || ""\<close> is then the empty string.
\<close>

definition set_pair :: "allow_users \<Rightarrow> jsstring \<Rightarrow> allow_users" where
  "set_pair m pair =
     (case split_on COLON pair of
        [] \<Rightarrow> m
      | [u] \<Rightarrow> if u \<noteq> [] then AList.update u [] m else m
      | u # p # _ \<Rightarrow> if u \<noteq> [] then AList.update u p m else m)"

text \<open>
  \<^verbatim>\<open>parseAllowUsers\<close>, with the environment variable (set to a string, or
  unset) as its argument.
\<close>

definition parseAllowUsers :: "jsstring option \<Rightarrow> allow_users" where
  "parseAllowUsers env =
     (let raw = (case env of None \<Rightarrow> [] | Some v \<Rightarrow> v)
      in foldl set_pair [] (filter (\<lambda>s. s \<noteq> []) (map trim (split_on COMMA raw))))"

definition okUserPass :: "allow_users \<Rightarrow> jsstring \<Rightarrow> jsval \<Rightarrow> bool" where
  "okUserPass ALLOW_USERS user pass =
     (if length ALLOW_USERS = 0 then True
      else (case map_of ALLOW_USERS user of
              None \<Rightarrow> False
            | Some allowedPass \<Rightarrow> JStr allowedPass = js_or pass (JStr [])))"

text \<open>
  Both handlers read \<^verbatim>\<open>const { username = "", password = "" } = req.query\<close> and
  pass \<^verbatim>\<open>String(username)\<close>, \<^verbatim>\<open>String(password)\<close> to the gate: a missing
  parameter takes the default.
\<close>

fun query_String :: "jsval \<Rightarrow> jsstring" where
  "query_String JUndefined = []"
| "query_String (JStr s) = s"
| "query_String JNull = ascii ''null''"

definition request_allowed :: "allow_users \<Rightarrow> jsval \<Rightarrow> jsval \<Rightarrow> bool" where
  "request_allowed ALLOW_USERS username password =
     okUserPass ALLOW_USERS (query_String username) (JStr (query_String password))"

section \<open>The fetch cache\<close>

text \<open>
  The retrieval capability is \<^verbatim>\<open>undiciRequest\<close>: a call either rejects or
  gives a response with a status code and a body, and reading the body either
  rejects or gives its text.
\<close>

datatype error = RequestFailed jsstring | UpstreamStatus int | BodyFailed jsstring

record response =
  statusCode :: int
  body_text :: "error + jsstring"

text \<open>What the \<open>n\<close>-th call of the process to \<^verbatim>\<open>undiciRequest\<close> results in.\<close>

type_synonym retrieval = "nat \<Rightarrow> error + response"

record cache =
  m3uText :: jsval
  parsed :: "entry list option"
  fetchedAt :: int

definition initial_cache :: cache where
  "initial_cache = \<lparr> m3uText = JNull, parsed = None, fetchedAt = 0 \<rparr>"

text \<open>The process state: the cache and the number of retrieval calls made so far.\<close>

record server =
  cache :: cache
  requests :: nat

text \<open>
  \<^verbatim>\<open>fetchM3U\<close>, with \<^verbatim>\<open>CACHE_TTL_MS\<close> and the value of \<^verbatim>\<open>Date.now()\<close>
  as arguments, both whole numbers of milliseconds. A thrown error is \<open>Inl\<close>.
  The three assignments to the cache follow the last \<^verbatim>\<open>await\<close>, so one call
  makes them together; calls that overlap in time are not modelled.
\<close>

definition fetchM3U :: "retrieval \<Rightarrow> int \<Rightarrow> int \<Rightarrow> server \<Rightarrow> (error + jsval) \<times> server" where
  "fetchM3U undiciRequest CACHE_TTL_MS now s =
     (if truthy (m3uText (cache s)) \<and> now - fetchedAt (cache s) < CACHE_TTL_MS
      then (Inr (m3uText (cache s)), s)
      else
        (let s1 = s\<lparr>requests := requests s + 1\<rparr> in
         case undiciRequest (requests s) of
           Inl e \<Rightarrow> (Inl e, s1)
         | Inr res \<Rightarrow>
             if statusCode res \<ge> 400 then (Inl (UpstreamStatus (statusCode res)), s1)
             else (case body_text res of
                     Inl e \<Rightarrow> (Inl e, s1)
                   | Inr text \<Rightarrow>
                       (Inr (JStr text),
                        s1\<lparr>cache := \<lparr> m3uText = JStr text,
                                       parsed = Some (parseM3U text),
                                       fetchedAt = now \<rparr>\<rparr>))))"

section \<open>The raw-playlist response\<close>

text \<open>
  \<^verbatim>\<open>String.prototype.replaceAll\<close> with a string pattern. The replacement is a
  template: with no capture groups, \<^verbatim>\<open>$$\<close> stands for a dollar sign,
  \<^verbatim>\<open>$&\<close> for the matched text, \<^verbatim>\<open>$`\<close> for the text before the match and
  \<^verbatim>\<open>$'\<close> for the text after it; every other character stands for itself.
\<close>

definition DOLLAR :: jschar where "DOLLAR = 0x24"
definition AMPERSAND :: jschar where "AMPERSAND = 0x26"
definition BACKTICK :: jschar where "BACKTICK = 0x60"
definition APOSTROPHE :: jschar where "APOSTROPHE = 0x27"

fun get_substitution :: "jsstring \<Rightarrow> jsstring \<Rightarrow> jsstring \<Rightarrow> jsstring \<Rightarrow> jsstring" where
  "get_substitution matched passed after (c # d # r) =
     (if c = DOLLAR \<and> d = DOLLAR then DOLLAR # get_substitution matched passed after r
      else if c = DOLLAR \<and> d = AMPERSAND then matched @ get_substitution matched passed after r
      else if c = DOLLAR \<and> d = BACKTICK then passed @ get_substitution matched passed after r
      else if c = DOLLAR \<and> d = APOSTROPHE then after @ get_substitution matched passed after r
      else c # get_substitution matched passed after (d # r))"
| "get_substitution matched passed after r = r"

text \<open>
  Matches are found left to right and do not overlap; \<open>passed\<close> is the part of
  the original string already passed. An empty pattern matches before every code
  unit and at the end.
\<close>

function replace_from :: "jsstring \<Rightarrow> jsstring \<Rightarrow> jsstring \<Rightarrow> jsstring \<Rightarrow> jsstring" where
  "replace_from search template passed s =
     (if search \<noteq> [] \<and> prefix search s then
        get_substitution search passed (drop (length search) s) template
        @ replace_from search template (passed @ search) (drop (length search) s)
      else (case s of
              [] \<Rightarrow> (if search = [] then get_substitution [] passed [] template else [])
            | c # cs \<Rightarrow>
                (if search = [] then get_substitution [] passed s template else [])
                @ c # replace_from search template (passed @ [c]) cs))"
  by pat_completeness auto
termination
  by (relation "measure (\<lambda>(search, template, passed, s). length s)")
     (auto simp: prefix_def)

declare replace_from.simps [simp del]

definition replaceAll :: "jsstring \<Rightarrow> jsstring \<Rightarrow> jsstring \<Rightarrow> jsstring" where
  "replaceAll s search template = replace_from search template [] s"

definition EXTM3U :: jsstring where "EXTM3U = ascii ''#EXTM3U''"

text \<open>
  Lines 145 to 148 of the \<^verbatim>\<open>/get.php\<close> handler: the body sent with status 200,
  from the fetched text and the two query parameters after \<^verbatim>\<open>String(...)\<close>.
\<close>

definition playlist_body :: "jsstring \<Rightarrow> jsstring \<Rightarrow> jsstring \<Rightarrow> jsstring" where
  "playlist_body m3u username password =
     (let personalized =
            replaceAll (replaceAll m3u (ascii ''{{username}}'') username)
                       (ascii ''{{password}}'') password;
          out = personalized
      in if \<not> startsWith out EXTM3U then EXTM3U @ [LF] @ out else out)"

section \<open>Notions used in the properties\<close>

subsection \<open>Line classes\<close>

text \<open>
  The three tests of the loop on a raw line: its trimmed form is empty, starts
  with the metadata marker, or is a URL line (not empty, no leading \<^verbatim>\<open>#\<close>).
\<close>

definition is_blank :: "jsstring \<Rightarrow> bool" where
  "is_blank raw \<longleftrightarrow> trim raw = []"

definition is_meta :: "jsstring \<Rightarrow> bool" where
  "is_meta raw \<longleftrightarrow> startsWith (trim raw) EXTINF"

definition is_url_line :: "jsstring \<Rightarrow> bool" where
  "is_url_line raw \<longleftrightarrow> trim raw \<noteq> [] \<and> \<not> startsWith (trim raw) HASH"

subsection \<open>The naming rules in the spec's words\<close>

text \<open>
  The spec's name rule, in its own words: the name attribute if it has a
  non-empty value, else the title if it is not empty, else the identifier
  attribute if it has a non-empty value, else the fixed label.
\<close>

definition nonempty_attr :: "attrs \<Rightarrow> jsstring \<Rightarrow> jsstring option" where
  "nonempty_attr a k = (case a k of None \<Rightarrow> None | Some v \<Rightarrow> if v = [] then None else Some v)"

definition spec_name :: "attrs \<Rightarrow> jsstring \<Rightarrow> jsstring" where
  "spec_name a t =
     (case nonempty_attr a TVG_NAME of
        Some n \<Rightarrow> n
      | None \<Rightarrow>
          if t \<noteq> [] then t
          else (case nonempty_attr a TVG_ID of
                  Some i \<Rightarrow> i
                | None \<Rightarrow> Unnamed))"

definition spec_category :: "attrs \<Rightarrow> jsstring" where
  "spec_category a = (case nonempty_attr a GROUP_TITLE of Some g \<Rightarrow> g | None \<Rightarrow> Other)"

subsection \<open>Upstreams and states for the examples\<close>

text \<open>An upstream that answers every request with status 200 and an empty body.\<close>

definition empty_body_upstream :: retrieval where
  "empty_body_upstream n = Inr \<lparr> statusCode = 200, body_text = Inr [] \<rparr>"

definition initial_server :: server where
  "initial_server = \<lparr> cache = initial_cache, requests = 0 \<rparr>"

text \<open>A retrieval that ends in a thrown error: the request rejects, the status is
  400 or more, or reading the body rejects.\<close>

fun retrieval_fails :: "error + response \<Rightarrow> bool" where
  "retrieval_fails (Inl e) = True"
| "retrieval_fails (Inr res) = (statusCode res \<ge> 400 \<or> isl (body_text res))"

text \<open>An upstream that answers every request with status 503.\<close>

definition unavailable_upstream :: retrieval where
  "unavailable_upstream n = Inr \<lparr> statusCode = 503, body_text = Inr [] \<rparr>"

section \<open>Evaluating the model on literals\<close>

text \<open>The defining equations, for running the functions on concrete texts.\<close>

lemmas js_eval =
  ascii_def trim_def is_space_def startsWith_def substring_from_def substring_to_def indexOf_def
  String_of_nat.simps CR_def LF_def is_word_def is_key_char_def HYPHEN_def EQUALS_def QUOTE_def
  COMMA_def COLON_def attr_loop.simps parseAttributes_def get_attr_def js_or_def
  EXTINF_def HASH_def TVG_NAME_def TVG_ID_def TVG_LOGO_def GROUP_TITLE_def Unnamed_def Other_def
  after_marker_def meta_of_def title_of_def extinf_entry_def to_entry_def map_idx_def
  parse_lines_def parseM3U_def set_pair_def parseAllowUsers_def okUserPass_def
  request_allowed_def DOLLAR_def AMPERSAND_def BACKTICK_def APOSTROPHE_def replace_from.simps
  replaceAll_def EXTM3U_def playlist_body_def Let_def

section \<open>Facts about the parser\<close>

subsection \<open>The steps of the line loop\<close>

lemma EXTINF_HASH: "EXTINF = HASH @ ascii ''EXTINF:''"
  by (simp add: EXTINF_def HASH_def ascii_def)

lemma startsWith_EXTINF_HASH: "startsWith l EXTINF \<Longrightarrow> startsWith l HASH"
  by (auto simp: startsWith_def EXTINF_HASH prefix_def)

lemma startsWith_EXTINF_nonempty: "startsWith l EXTINF \<Longrightarrow> l \<noteq> []"
  by (auto simp: startsWith_def EXTINF_def ascii_def)

lemma line_cases:
  obtains (blank) "is_blank raw"
  | (meta) "\<not> is_blank raw" "is_meta raw"
  | (url) "\<not> is_blank raw" "\<not> is_meta raw" "is_url_line raw"
  | (comment) "\<not> is_blank raw" "\<not> is_meta raw" "\<not> is_url_line raw"
  by blast

lemma scan_blank: "is_blank raw \<Longrightarrow> scan_lines cur acc (raw # rest) = scan_lines cur acc rest"
  by (simp add: is_blank_def)

lemma scan_meta:
  "is_meta raw \<Longrightarrow>
   scan_lines cur acc (raw # rest) = scan_lines (Some (extinf_entry (trim raw))) acc rest"
  by (auto simp: is_meta_def Let_def dest: startsWith_EXTINF_nonempty)

lemma scan_url:
  "is_url_line raw \<Longrightarrow>
   scan_lines (Some c) acc (raw # rest) = scan_lines None (acc @ [c\<lparr>p_url := JStr (trim raw)\<rparr>]) rest"
  by (auto simp: is_url_line_def Let_def dest: startsWith_EXTINF_HASH)

lemma scan_comment:
  "\<not> is_meta raw \<Longrightarrow> \<not> is_url_line raw \<Longrightarrow>
   scan_lines cur acc (raw # rest) = scan_lines cur acc rest"
  by (auto simp: is_meta_def is_url_line_def Let_def split: option.splits)

lemma scan_url_none:
  "\<not> is_meta raw \<Longrightarrow> scan_lines None acc (raw # rest) = scan_lines None acc rest"
  by (auto simp: is_meta_def Let_def)

lemma scan_lines_no_url:
  assumes "\<forall>m \<in> set mid. \<not> is_url_line m"
    and "post = [] \<or> (\<exists>m ms. post = m # ms \<and> is_meta m)"
  shows "scan_lines c acc (mid @ post) = scan_lines c' acc (mid @ post)"
  using assms(1)
proof (induction mid arbitrary: c c')
  case Nil
  from assms(2) show ?case
  proof
    assume "post = []" then show ?thesis by simp
  next
    assume "\<exists>m ms. post = m # ms \<and> is_meta m"
    then obtain m ms where "post = m # ms" "is_meta m" by blast
    then show ?thesis by (simp add: scan_meta del: scan_lines.simps)
  qed
next
  case (Cons x xs)
  then have nurl: "\<not> is_url_line x" and rest: "\<forall>m \<in> set xs. \<not> is_url_line m" by simp_all
  note IH = Cons.IH [OF rest]
  show ?case
  proof (cases x rule: line_cases)
    case blank
    with IH [of c c'] show ?thesis by (simp add: scan_blank del: scan_lines.simps)
  next
    case meta
    then show ?thesis by (simp add: scan_meta del: scan_lines.simps)
  next
    case url
    with nurl show ?thesis by simp
  next
    case comment
    with IH [of c c'] show ?thesis by (simp add: scan_comment del: scan_lines.simps)
  qed
qed

lemma scan_lines_cong_tail:
  assumes "\<And>cur acc. scan_lines cur acc xs = scan_lines cur acc ys"
  shows "scan_lines cur acc (pre @ xs) = scan_lines cur acc (pre @ ys)"
proof (induction pre arbitrary: cur acc)
  case Nil
  show ?case by (simp only: append_Nil assms)
next
  case (Cons x rest)
  note IH = Cons.IH
  show ?case
  proof (cases x rule: line_cases)
    case blank
    with IH [of cur acc] show ?thesis by (simp add: scan_blank del: scan_lines.simps)
  next
    case meta
    with IH show ?thesis by (simp add: scan_meta del: scan_lines.simps)
  next
    case url
    show ?thesis
    proof (cases cur)
      case None
      with url IH [of None acc] show ?thesis by (simp add: scan_url_none del: scan_lines.simps)
    next
      case (Some c)
      with url IH show ?thesis by (simp add: scan_url del: scan_lines.simps)
    qed
  next
    case comment
    with IH [of cur acc] show ?thesis by (simp add: scan_comment del: scan_lines.simps)
  qed
qed

lemma scan_lines_drop_meta:
  assumes "is_meta l" and "\<forall>m \<in> set mid. \<not> is_url_line m"
    and "post = [] \<or> (\<exists>m ms. post = m # ms \<and> is_meta m)"
  shows "scan_lines cur acc (pre @ [l] @ mid @ post) = scan_lines cur acc (pre @ mid @ post)"
proof (rule scan_lines_cong_tail)
  fix cur acc
  have "scan_lines cur acc ([l] @ mid @ post)
      = scan_lines (Some (extinf_entry (trim l))) acc (mid @ post)"
    using assms(1) by (simp add: scan_meta del: scan_lines.simps)
  also have "\<dots> = scan_lines cur acc (mid @ post)"
    by (rule scan_lines_no_url [OF assms(2,3)])
  finally show "scan_lines cur acc ([l] @ mid @ post) = scan_lines cur acc (mid @ post)" .
qed

lemma scan_lines_drop_blank:
  assumes "is_blank b"
  shows "scan_lines cur acc (pre @ [b] @ post) = scan_lines cur acc (pre @ post)"
proof (rule scan_lines_cong_tail)
  fix cur acc
  show "scan_lines cur acc ([b] @ post) = scan_lines cur acc post"
    using assms by (simp add: scan_blank del: scan_lines.simps)
qed

subsection \<open>Trimming\<close>

lemma trim_ends:
  assumes "trim s \<noteq> []"
  shows "\<not> is_space (hd (trim s))" and "\<not> is_space (last (trim s))"
proof -
  define d where "d = dropWhile is_space s"
  define r where "r = dropWhile is_space (rev d)"
  have t: "trim s = rev r" by (simp add: trim_def d_def r_def)
  with assms have rne: "r \<noteq> []" by simp
  then have hr: "\<not> is_space (hd r)" unfolding r_def by (rule hd_dropWhile)
  from rne have dne: "d \<noteq> []" by (auto simp: r_def)
  then have hd_d: "\<not> is_space (hd d)" unfolding d_def by (rule hd_dropWhile)
  have "rev d = takeWhile is_space (rev d) @ r" by (simp add: r_def)
  then have "last (rev d) = last r" using rne by (metis last_appendR)
  then have "last r = hd d" using dne by (simp add: last_rev)
  then show "\<not> is_space (hd (trim s))" using hd_d rne by (simp add: t hd_rev)
  show "\<not> is_space (last (trim s))" using hr rne by (simp add: t last_rev)
qed

lemma trim_fixed:
  assumes "s = [] \<or> (\<not> is_space (hd s) \<and> \<not> is_space (last s))"
  shows "trim s = s"
proof (cases "s = []")
  case True
  then show ?thesis by (simp add: trim_def)
next
  case False
  with assms have h: "\<not> is_space (hd s)" and l: "\<not> is_space (last s)" by auto
  from False h have 1: "dropWhile is_space s = s" by (cases s) auto
  from False l have "\<not> is_space (hd (rev s))" by (simp add: hd_rev)
  with False have 2: "dropWhile is_space (rev s) = rev s" by (cases "rev s") auto
  show ?thesis by (simp add: trim_def 1 2)
qed

lemma trim_idem: "trim (trim s) = trim s"
  by (rule trim_fixed) (use trim_ends [of s] in blast)

lemma trim_blank_iff: "trim s = [] \<longleftrightarrow> (\<forall>c \<in> set s. is_space c)"
proof -
  have "trim s = [] \<longleftrightarrow> (\<forall>x \<in> set (dropWhile is_space s). is_space x)"
    by (simp add: trim_def)
  also have "\<dots> \<longleftrightarrow> dropWhile is_space s = []"
    by (metis hd_dropWhile list.set_sel(1) empty_iff list.set(1))
  also have "\<dots> \<longleftrightarrow> (\<forall>c \<in> set s. is_space c)"
    by simp
  finally show ?thesis .
qed


lemma trim_decomp:
  "\<exists>a b. s = a @ trim s @ b \<and> (\<forall>c \<in> set a. is_space c) \<and> (\<forall>c \<in> set b. is_space c)"
proof -
  define d where "d = dropWhile is_space s"
  have 1: "s = takeWhile is_space s @ d" by (simp add: d_def)
  have "rev (dropWhile is_space (rev d)) @ rev (takeWhile is_space (rev d)) = d"
    by (metis rev_append rev_rev_ident takeWhile_dropWhile_id)
  then have 2: "d = trim s @ rev (takeWhile is_space (rev d))"
    by (simp add: trim_def d_def)
  have a: "\<forall>c \<in> set (takeWhile is_space s). is_space c" by (auto dest: set_takeWhileD)
  have b: "\<forall>c \<in> set (rev (takeWhile is_space (rev d))). is_space c"
    by (auto dest: set_takeWhileD)
  from 1 2 have "s = takeWhile is_space s @ trim s @ rev (takeWhile is_space (rev d))" by simp
  with a b show ?thesis by blast
qed

subsection \<open>Where emitted entries come from\<close>

lemma scan_lines_trimmed: "scan_lines cur acc (map trim ls) = scan_lines cur acc ls"
  by (induction ls arbitrary: cur acc) (simp_all add: trim_idem Let_def split: option.splits)

lemma scan_lines_origin:
  "c \<in> set (scan_lines cur acc ls) \<Longrightarrow>
   c \<in> set acc \<or>
   (\<exists>u \<in> set ls. is_url_line u \<and>
      ((\<exists>p. cur = Some p \<and> c = p\<lparr>p_url := JStr (trim u)\<rparr>) \<or>
       (\<exists>raw \<in> set ls. is_meta raw \<and> c = (extinf_entry (trim raw))\<lparr>p_url := JStr (trim u)\<rparr>)))"
proof (induction ls arbitrary: cur acc)
  case Nil
  then show ?case by simp
next
  case (Cons x rest)
  show ?case
  proof (cases x rule: line_cases)
    case blank
    with Cons.prems have "c \<in> set (scan_lines cur acc rest)"
      by (simp add: scan_blank del: scan_lines.simps)
    from Cons.IH [OF this] show ?thesis by auto
  next
    case meta
    with Cons.prems have "c \<in> set (scan_lines (Some (extinf_entry (trim x))) acc rest)"
      by (simp add: scan_meta del: scan_lines.simps)
    from Cons.IH [OF this] meta(2) show ?thesis by auto
  next
    case url
    show ?thesis
    proof (cases cur)
      case None
      with url Cons.prems have "c \<in> set (scan_lines None acc rest)"
        by (simp add: scan_url_none del: scan_lines.simps)
      from Cons.IH [OF this] None show ?thesis by auto
    next
      case (Some p)
      with url Cons.prems
      have "c \<in> set (scan_lines None (acc @ [p\<lparr>p_url := JStr (trim x)\<rparr>]) rest)"
        by (simp add: scan_url del: scan_lines.simps)
      from Cons.IH [OF this] Some url(3) show ?thesis by auto
    qed
  next
    case comment
    with Cons.prems have "c \<in> set (scan_lines cur acc rest)"
      by (simp add: scan_comment del: scan_lines.simps)
    from Cons.IH [OF this] show ?thesis by auto
  qed
qed

lemma map_idx_origin: "e \<in> set (map_idx f xs) \<Longrightarrow> \<exists>x \<in> set xs. \<exists>idx. e = f x idx"
  by (auto simp: map_idx_def in_set_enumerate_eq)

lemma parse_lines_origin:
  assumes "e \<in> set (parse_lines ls)"
  shows "\<exists>raw \<in> set ls. \<exists>u \<in> set ls. \<exists>idx. is_meta raw \<and> is_url_line u \<and>
           e = to_entry ((extinf_entry (trim raw))\<lparr>p_url := JStr (trim u)\<rparr>) idx"
proof -
  from assms obtain c idx where c: "c \<in> set (scan_lines None [] ls)" and e: "e = to_entry c idx"
    unfolding parse_lines_def by (blast dest: map_idx_origin)
  from scan_lines_origin [OF c] e show ?thesis by auto
qed

subsection \<open>The naming rules\<close>

lemma Unnamed_nonempty: "Unnamed \<noteq> []"
  by (simp add: Unnamed_def ascii_def)

lemma extinf_entry_name:
  "p_name (extinf_entry line) = JStr (spec_name (parseAttributes (meta_of line)) (title_of line))"
  by (simp add: extinf_entry_def Let_def spec_name_def nonempty_attr_def js_or_def get_attr_def
      Unnamed_nonempty split: option.splits)

lemma to_entry_category:
  "group_title (to_entry c idx) = JStr (spec_category (p_attrs c))"
  by (simp add: to_entry_def spec_category_def nonempty_attr_def js_or_def get_attr_def
      split: option.splits)

lemma after_first_comma:
  "(if indexOf a COMMA \<ge> 0 then trim (substring_from a (nat (indexOf a COMMA + 1))) else [])
   = trim (drop 1 (dropWhile (\<lambda>x. x \<noteq> COMMA) a))"
proof (cases "COMMA \<in> set a")
  case True
  have "drop (Suc (length (takeWhile (\<lambda>x. x \<noteq> COMMA) a))) a
      = drop 1 (drop (length (takeWhile (\<lambda>x. x \<noteq> COMMA) a)) a)"
    by simp
  also have "\<dots> = drop 1 (dropWhile (\<lambda>x. x \<noteq> COMMA) a)"
    by (simp only: dropWhile_eq_drop)
  finally show ?thesis using True
    by (simp add: substring_from_def indexOf_def nat_add_distrib)
next
  case False
  then have d: "dropWhile (\<lambda>x. x \<noteq> COMMA) a = []" by auto
  have "trim (drop 1 (dropWhile (\<lambda>x. x \<noteq> COMMA) a)) = []"
    unfolding d by (simp add: trim_def)
  with False show ?thesis
    by (simp only: indexOf_def if_False) simp
qed

lemma title_of_after_comma:
  "title_of line = trim (drop 1 (dropWhile (\<lambda>x. x \<noteq> COMMA) (drop (length EXTINF) line)))"
  unfolding title_of_def Let_def after_first_comma
  by (simp add: after_marker_def substring_from_def)

section \<open>Properties of the fetch cache\<close>

text \<open>
  C1, as amended. When the cache holds a non-empty raw text and less than the
  time to live has passed since it was fetched, \<^verbatim>\<open>fetchM3U\<close> returns that text
  and leaves the whole state as it was: the cache is untouched and no retrieval
  call is made.
\<close>

theorem fetchM3U_fresh_nonempty:
  assumes "m3uText (cache s) = JStr t" and "t \<noteq> []"
    and "now - fetchedAt (cache s) < CACHE_TTL_MS"
  shows "fetchM3U undiciRequest CACHE_TTL_MS now s = (Inr (JStr t), s)"
  using assms by (simp add: fetchM3U_def)

theorem fetchM3U_fresh_nonempty_witness:
  "fetchM3U empty_body_upstream 300000 1001
     \<lparr> cache = \<lparr> m3uText = JStr (ascii ''#EXTM3U''), parsed = Some [], fetchedAt = 1000 \<rparr>,
       requests = 1 \<rparr>
   = (Inr (JStr (ascii ''#EXTM3U'')),
      \<lparr> cache = \<lparr> m3uText = JStr (ascii ''#EXTM3U''), parsed = Some [], fetchedAt = 1000 \<rparr>,
        requests = 1 \<rparr>)"
  by (rule fetchM3U_fresh_nonempty) (simp_all add: ascii_def)

text \<open>
  C1 as stated fails for the empty raw text, which \<^verbatim>\<open>cache.m3uText && ...\<close>
  takes for no text at all. The first call, at time 1000, stores the empty body of
  a successful fetch; the second call, one millisecond later and well inside the
  five minutes, calls the upstream again.
\<close>

theorem fetchM3U_fresh_empty_counterexample:
  "snd (fetchM3U empty_body_upstream 300000 1000 initial_server)
     = \<lparr> cache = \<lparr> m3uText = JStr [], parsed = Some [], fetchedAt = 1000 \<rparr>, requests = 1 \<rparr>
   \<and> (1001::int) - 1000 < 300000
   \<and> requests (snd (fetchM3U empty_body_upstream 300000 1001
        \<lparr> cache = \<lparr> m3uText = JStr [], parsed = Some [], fetchedAt = 1000 \<rparr>, requests = 1 \<rparr>)) = 2"
  by (simp add: fetchM3U_def empty_body_upstream_def initial_server_def initial_cache_def
      parseM3U_def parse_lines_def map_idx_def trim_def)

text \<open>
  C2. When \<^verbatim>\<open>fetchM3U\<close> has to refresh and the retrieval fails, the call ends
  in an error and the three cache fields are what they were. Whatever the
  retrieval does, a call leaves the cache as it was or replaces all three fields
  together: the fetched text, its parse and the time of the call.
\<close>

theorem fetchM3U_all_or_nothing:
  "(\<not> (truthy (m3uText (cache s)) \<and> now - fetchedAt (cache s) < CACHE_TTL_MS)
      \<and> retrieval_fails (undiciRequest (requests s))
     \<longrightarrow> isl (fst (fetchM3U undiciRequest CACHE_TTL_MS now s))
         \<and> cache (snd (fetchM3U undiciRequest CACHE_TTL_MS now s)) = cache s)
   \<and> (cache (snd (fetchM3U undiciRequest CACHE_TTL_MS now s)) = cache s
      \<or> (\<exists>text. fst (fetchM3U undiciRequest CACHE_TTL_MS now s) = Inr (JStr text)
           \<and> cache (snd (fetchM3U undiciRequest CACHE_TTL_MS now s))
              = \<lparr> m3uText = JStr text, parsed = Some (parseM3U text), fetchedAt = now \<rparr>))"
  by (cases "undiciRequest (requests s)"; cases "body_text (projr (undiciRequest (requests s)))")
     (auto simp: fetchM3U_def Let_def split: sum.splits)

text \<open>
  A stale cache and an upstream that answers 503: the call throws, and the text
  fetched earlier, its parse and its time stay in the cache.
\<close>

theorem fetchM3U_all_or_nothing_witness:
  "fst (fetchM3U unavailable_upstream 300000 400000
          \<lparr> cache = \<lparr> m3uText = JStr (ascii ''#EXTM3U''), parsed = Some [], fetchedAt = 1000 \<rparr>,
            requests = 1 \<rparr>) = Inl (UpstreamStatus 503)
   \<and> cache (snd (fetchM3U unavailable_upstream 300000 400000
          \<lparr> cache = \<lparr> m3uText = JStr (ascii ''#EXTM3U''), parsed = Some [], fetchedAt = 1000 \<rparr>,
            requests = 1 \<rparr>))
      = \<lparr> m3uText = JStr (ascii ''#EXTM3U''), parsed = Some [], fetchedAt = 1000 \<rparr>"
proof -
  let ?s = "\<lparr> cache = \<lparr> m3uText = JStr (ascii ''#EXTM3U''), parsed = Some [], fetchedAt = 1000 \<rparr>,
             requests = 1 \<rparr>"
  have stale: "\<not> (truthy (m3uText (cache ?s)) \<and> 400000 - fetchedAt (cache ?s) < 300000)"
    by simp
  have fails: "retrieval_fails (unavailable_upstream (requests ?s))"
    by (simp add: unavailable_upstream_def)
  from fetchM3U_all_or_nothing [of ?s 400000 300000 unavailable_upstream] stale fails
  have kept: "cache (snd (fetchM3U unavailable_upstream 300000 400000 ?s)) = cache ?s"
    by blast
  have thrown: "fst (fetchM3U unavailable_upstream 300000 400000 ?s) = Inl (UpstreamStatus 503)"
    by (simp add: fetchM3U_def unavailable_upstream_def)
  from kept thrown show ?thesis by simp
qed

section \<open>Properties of the parser\<close>

text \<open>
  C3. Every entry that \<^verbatim>\<open>parseM3U\<close> returns has a media URL that is a
  non-empty string, never \<^verbatim>\<open>null\<close>. A metadata line that is followed, up to
  the next metadata line or the end of the input, by no URL line leaves no trace:
  the result is that of the same lines without it.
\<close>

theorem parseM3U_media_url_present:
  "(\<forall>e \<in> set (parseM3U text). \<exists>u. u \<noteq> [] \<and> direct_source e = JStr u)
   \<and> (\<forall>pre l mid post.
         split_lines text = pre @ [l] @ mid @ post \<and> is_meta l
         \<and> (\<forall>m \<in> set mid. \<not> is_url_line m)
         \<and> (post = [] \<or> (\<exists>m ms. post = m # ms \<and> is_meta m))
         \<longrightarrow> parseM3U text = parse_lines (pre @ mid @ post))"
proof (intro conjI ballI allI impI)
  fix e
  assume "e \<in> set (parseM3U text)"
  then obtain raw u idx where "is_url_line u"
    and "e = to_entry ((extinf_entry (trim raw))\<lparr>p_url := JStr (trim u)\<rparr>) idx"
    unfolding parseM3U_def by (blast dest: parse_lines_origin)
  then have "trim u \<noteq> [] \<and> direct_source e = JStr (trim u)"
    by (simp add: is_url_line_def to_entry_def)
  then show "\<exists>u. u \<noteq> [] \<and> direct_source e = JStr u" by blast
next
  fix pre l mid post
  assume h: "split_lines text = pre @ [l] @ mid @ post \<and> is_meta l
         \<and> (\<forall>m \<in> set mid. \<not> is_url_line m)
         \<and> (post = [] \<or> (\<exists>m ms. post = m # ms \<and> is_meta m))"
  then have "scan_lines None [] (pre @ [l] @ mid @ post) = scan_lines None [] (pre @ mid @ post)"
    by (intro scan_lines_drop_meta) blast+
  with h show "parseM3U text = parse_lines (pre @ mid @ post)"
    by (simp add: parseM3U_def parse_lines_def)
qed

text \<open>
  A text that ends in a metadata line with no URL line after it: the one entry
  has a URL, and the last line can be left out.
\<close>

theorem parseM3U_media_url_present_witness:
  "(\<exists>u. u \<noteq> [] \<and> direct_source (hd (parseM3U (ascii ''#EXTINF:,A\<newline>u\<newline>#EXTINF:,B''))) = JStr u)
   \<and> parseM3U (ascii ''#EXTINF:,A\<newline>u\<newline>#EXTINF:,B'') = parse_lines [ascii ''#EXTINF:,A'', ascii ''u'']"
proof -
  let ?T = "ascii ''#EXTINF:,A\<newline>u\<newline>#EXTINF:,B''"
  have "parseM3U ?T \<noteq> []" by (simp add: js_eval)
  then have mem: "hd (parseM3U ?T) \<in> set (parseM3U ?T)" by (rule hd_in_set)
  have sp: "split_lines ?T = [ascii ''#EXTINF:,A'', ascii ''u''] @ [ascii ''#EXTINF:,B''] @ [] @ []"
    by (simp add: js_eval)
  have meta: "is_meta (ascii ''#EXTINF:,B'')" by (simp add: js_eval is_meta_def)
  note th = parseM3U_media_url_present [of ?T]
  from th mem have a: "\<exists>u. u \<noteq> [] \<and> direct_source (hd (parseM3U ?T)) = JStr u" by blast
  from th have "split_lines ?T = [ascii ''#EXTINF:,A'', ascii ''u''] @ [ascii ''#EXTINF:,B''] @ [] @ [] \<and> is_meta (ascii ''#EXTINF:,B'')
         \<and> (\<forall>m \<in> set []. \<not> is_url_line m)
         \<and> ([] = [] \<or> (\<exists>m ms. [] = m # ms \<and> is_meta m))
         \<longrightarrow> parseM3U ?T = parse_lines ([ascii ''#EXTINF:,A'', ascii ''u''] @ [] @ [])" by blast
  with sp meta have b: "parseM3U ?T = parse_lines [ascii ''#EXTINF:,A'', ascii ''u'']" by simp
  from a b show ?thesis by blast
qed

text \<open>
  C4. Of two metadata lines in a row the first is dropped: the result is that of
  the same lines without it. The spec's example yields exactly one entry, named
  \<open>B\<close>, with the media URL \<^verbatim>\<open>http://x/b\<close>.
\<close>

theorem parseM3U_consecutive_metadata:
  "(\<forall>pre l1 l2 post.
      split_lines text = pre @ [l1, l2] @ post \<and> is_meta l1 \<and> is_meta l2
      \<longrightarrow> parseM3U text = parse_lines (pre @ [l2] @ post))
   \<and> parseM3U (ascii ''#EXTINF:-1 tvg-name=\"A\",A\<newline>#EXTINF:-1 tvg-name=\"B\",B\<newline>http://x/b'')
     = [\<lparr> entry_id = ascii ''1'', stream_id = 1, name = JStr (ascii ''B''), title = ascii ''B'',
          tvg_id = JNull, tvg_logo = JNull, group_title = JStr (ascii ''Other''),
          direct_source = JStr (ascii ''http://x/b'') \<rparr>]"
proof (intro conjI allI impI)
  fix pre l1 l2 post
  assume h: "split_lines text = pre @ [l1, l2] @ post \<and> is_meta l1 \<and> is_meta l2"
  then have "scan_lines None [] (pre @ [l1] @ [] @ (l2 # post)) = scan_lines None [] (pre @ [] @ (l2 # post))"
    by (intro scan_lines_drop_meta) auto
  with h show "parseM3U text = parse_lines (pre @ [l2] @ post)"
    by (simp add: parseM3U_def parse_lines_def)
next
  show "parseM3U (ascii ''#EXTINF:-1 tvg-name=\"A\",A\<newline>#EXTINF:-1 tvg-name=\"B\",B\<newline>http://x/b'')
     = [\<lparr> entry_id = ascii ''1'', stream_id = 1, name = JStr (ascii ''B''), title = ascii ''B'',
          tvg_id = JNull, tvg_logo = JNull, group_title = JStr (ascii ''Other''),
          direct_source = JStr (ascii ''http://x/b'') \<rparr>]"
    by (simp add: js_eval is_meta_def)
qed

text \<open>
  The first of the two metadata lines of the spec's example can be left out.
\<close>

theorem parseM3U_consecutive_metadata_witness:
  "parseM3U (ascii ''#EXTINF:-1 tvg-name=\"A\",A\<newline>#EXTINF:-1 tvg-name=\"B\",B\<newline>http://x/b'')
   = parse_lines [ascii ''#EXTINF:-1 tvg-name=\"B\",B'', ascii ''http://x/b'']"
proof -
  let ?T = "ascii ''#EXTINF:-1 tvg-name=\"A\",A\<newline>#EXTINF:-1 tvg-name=\"B\",B\<newline>http://x/b''"
  let ?l1 = "ascii ''#EXTINF:-1 tvg-name=\"A\",A''"
  let ?l2 = "ascii ''#EXTINF:-1 tvg-name=\"B\",B''"
  have sp: "split_lines ?T = [] @ [?l1, ?l2] @ [ascii ''http://x/b'']" by (simp add: js_eval is_meta_def)
  have m1: "is_meta ?l1" by (simp add: js_eval is_meta_def)
  have m2: "is_meta ?l2" by (simp add: js_eval is_meta_def)
  from parseM3U_consecutive_metadata [of ?T]
  have "split_lines ?T = [] @ [?l1, ?l2] @ [ascii ''http://x/b''] \<and> is_meta ?l1 \<and> is_meta ?l2
      \<longrightarrow> parseM3U ?T = parse_lines ([] @ [?l2] @ [ascii ''http://x/b''])" by blast
  with sp m1 m2 show ?thesis by simp
qed

text \<open>
  C5. Every returned entry stems from a metadata line of the input, and its name
  follows the precedence of the spec: the \<^verbatim>\<open>tvg-name\<close> attribute of that line
  if it has a non-empty value, else the line's title if not empty, else its
  \<^verbatim>\<open>tvg-id\<close> attribute if it has a non-empty value, else \<^verbatim>\<open>Unnamed\<close>. The
  four examples: a name attribute wins over title and identifier; with no name
  attribute the title \<^verbatim>\<open>Show X\<close> is the name; with neither, the identifier
  \<^verbatim>\<open>id1\<close>; with none of the three, \<^verbatim>\<open>Unnamed\<close>.
\<close>

theorem parseM3U_name_precedence:
  "(\<forall>e \<in> set (parseM3U text). \<exists>raw \<in> set (split_lines text).
       is_meta raw \<and> title e = title_of (trim raw)
       \<and> name e = JStr (spec_name (parseAttributes (meta_of (trim raw))) (title_of (trim raw))))
   \<and> map name (parseM3U (ascii ''#EXTINF:-1 tvg-id=\"id1\" tvg-name=\"N\",Show X\<newline>u''))
       = [JStr (ascii ''N'')]
   \<and> map name (parseM3U (ascii ''#EXTINF:-1,Show X\<newline>u'')) = [JStr (ascii ''Show X'')]
   \<and> map name (parseM3U (ascii ''#EXTINF:-1 tvg-id=\"id1\",\<newline>u'')) = [JStr (ascii ''id1'')]
   \<and> map name (parseM3U (ascii ''#EXTINF:-1,\<newline>u'')) = [JStr (ascii ''Unnamed'')]"
proof (intro conjI ballI)
  fix e
  assume "e \<in> set (parseM3U text)"
  then obtain raw u idx where raw: "raw \<in> set (split_lines text)" "is_meta raw"
    and e: "e = to_entry ((extinf_entry (trim raw))\<lparr>p_url := JStr (trim u)\<rparr>) idx"
    unfolding parseM3U_def by (blast dest: parse_lines_origin)
  from e have "name e = p_name (extinf_entry (trim raw))" by (simp add: to_entry_def)
  moreover from e have "title e = title_of (trim raw)"
    by (simp add: to_entry_def extinf_entry_def Let_def)
  ultimately show "\<exists>raw \<in> set (split_lines text).
       is_meta raw \<and> title e = title_of (trim raw)
       \<and> name e = JStr (spec_name (parseAttributes (meta_of (trim raw))) (title_of (trim raw)))"
    using raw by (auto simp: extinf_entry_name)
next
  show "map name (parseM3U (ascii ''#EXTINF:-1 tvg-id=\"id1\" tvg-name=\"N\",Show X\<newline>u''))
       = [JStr (ascii ''N'')]" by (simp add: js_eval is_meta_def)
  show "map name (parseM3U (ascii ''#EXTINF:-1,Show X\<newline>u'')) = [JStr (ascii ''Show X'')]"
    by (simp add: js_eval is_meta_def)
  show "map name (parseM3U (ascii ''#EXTINF:-1 tvg-id=\"id1\",\<newline>u'')) = [JStr (ascii ''id1'')]"
    by (simp add: js_eval is_meta_def)
  show "map name (parseM3U (ascii ''#EXTINF:-1,\<newline>u'')) = [JStr (ascii ''Unnamed'')]"
    by (simp add: js_eval is_meta_def)
qed

text \<open>An entry with a name attribute, traced back to its metadata line.\<close>

theorem parseM3U_name_precedence_witness:
  "\<exists>raw \<in> set (split_lines (ascii ''#EXTINF:0 tvg-name=\"N\",X\<newline>u'')).
     is_meta raw
     \<and> title (hd (parseM3U (ascii ''#EXTINF:0 tvg-name=\"N\",X\<newline>u''))) = title_of (trim raw)
     \<and> name (hd (parseM3U (ascii ''#EXTINF:0 tvg-name=\"N\",X\<newline>u'')))
         = JStr (spec_name (parseAttributes (meta_of (trim raw))) (title_of (trim raw)))"
proof -
  have "parseM3U (ascii ''#EXTINF:0 tvg-name=\"N\",X\<newline>u'') \<noteq> []"
    by (simp add: js_eval)
  then have "hd (parseM3U (ascii ''#EXTINF:0 tvg-name=\"N\",X\<newline>u''))
        \<in> set (parseM3U (ascii ''#EXTINF:0 tvg-name=\"N\",X\<newline>u''))"
    by (rule hd_in_set)
  with parseM3U_name_precedence [of "ascii ''#EXTINF:0 tvg-name=\"N\",X\<newline>u''"]
  show ?thesis by blast
qed

text \<open>
  C7. The category of every returned entry is the \<^verbatim>\<open>group-title\<close> attribute
  of its metadata line when that has a non-empty value, and \<^verbatim>\<open>Other\<close> when the
  attribute is missing or empty.
\<close>

theorem parseM3U_category:
  "(\<forall>e \<in> set (parseM3U text). \<exists>raw \<in> set (split_lines text).
       is_meta raw \<and> title e = title_of (trim raw)
       \<and> group_title e = JStr (spec_category (parseAttributes (meta_of (trim raw)))))
   \<and> map group_title (parseM3U (ascii ''#EXTINF:-1 group-title=\"News\",A\<newline>u''))
       = [JStr (ascii ''News'')]
   \<and> map group_title (parseM3U (ascii ''#EXTINF:-1 group-title=\"\",A\<newline>u''))
       = [JStr (ascii ''Other'')]
   \<and> map group_title (parseM3U (ascii ''#EXTINF:-1,A\<newline>u'')) = [JStr (ascii ''Other'')]"
proof (intro conjI ballI)
  fix e
  assume "e \<in> set (parseM3U text)"
  then obtain raw u idx where raw: "raw \<in> set (split_lines text)" "is_meta raw"
    and e: "e = to_entry ((extinf_entry (trim raw))\<lparr>p_url := JStr (trim u)\<rparr>) idx"
    unfolding parseM3U_def by (blast dest: parse_lines_origin)
  from e have "group_title e = JStr (spec_category (parseAttributes (meta_of (trim raw))))"
    by (simp add: to_entry_category extinf_entry_def Let_def)
  moreover from e have "title e = title_of (trim raw)"
    by (simp add: to_entry_def extinf_entry_def Let_def)
  ultimately show "\<exists>raw \<in> set (split_lines text).
       is_meta raw \<and> title e = title_of (trim raw)
       \<and> group_title e = JStr (spec_category (parseAttributes (meta_of (trim raw))))"
    using raw by auto
next
  show "map group_title (parseM3U (ascii ''#EXTINF:-1 group-title=\"News\",A\<newline>u''))
       = [JStr (ascii ''News'')]" by (simp add: js_eval is_meta_def)
  show "map group_title (parseM3U (ascii ''#EXTINF:-1 group-title=\"\",A\<newline>u''))
       = [JStr (ascii ''Other'')]" by (simp add: js_eval is_meta_def)
  show "map group_title (parseM3U (ascii ''#EXTINF:-1,A\<newline>u'')) = [JStr (ascii ''Other'')]"
    by (simp add: js_eval is_meta_def)
qed

text \<open>An entry with a category attribute, traced back to its metadata line.\<close>

theorem parseM3U_category_witness:
  "\<exists>raw \<in> set (split_lines (ascii ''#EXTINF:0 group-title=\"G\",X\<newline>u'')).
     is_meta raw
     \<and> title (hd (parseM3U (ascii ''#EXTINF:0 group-title=\"G\",X\<newline>u''))) = title_of (trim raw)
     \<and> group_title (hd (parseM3U (ascii ''#EXTINF:0 group-title=\"G\",X\<newline>u'')))
         = JStr (spec_category (parseAttributes (meta_of (trim raw))))"
proof -
  have "parseM3U (ascii ''#EXTINF:0 group-title=\"G\",X\<newline>u'') \<noteq> []"
    by (simp add: js_eval)
  then have "hd (parseM3U (ascii ''#EXTINF:0 group-title=\"G\",X\<newline>u''))
        \<in> set (parseM3U (ascii ''#EXTINF:0 group-title=\"G\",X\<newline>u''))"
    by (rule hd_in_set)
  with parseM3U_category [of "ascii ''#EXTINF:0 group-title=\"G\",X\<newline>u''"]
  show ?thesis by blast
qed

text \<open>
  C10. The parser works on trimmed lines: trimming every line first changes
  nothing, where trimming takes a string apart into leading whitespace, the
  result, and trailing whitespace, the result neither starting nor ending with
  whitespace. A line of whitespace only can be left out. The media URL of every
  returned entry is the trimmed form of a URL line of the input, and its title is
  the trimmed text after the first comma of a metadata line of the input (empty
  when there is no comma).
\<close>

theorem parseM3U_trims_lines:
  "parseM3U text = parse_lines (map trim (split_lines text))
   \<and> (\<forall>s. \<exists>a b. s = a @ trim s @ b \<and> (\<forall>c \<in> set a. is_space c) \<and> (\<forall>c \<in> set b. is_space c)
          \<and> (trim s = [] \<or> (\<not> is_space (hd (trim s)) \<and> \<not> is_space (last (trim s)))))
   \<and> (\<forall>pre b post.
         split_lines text = pre @ [b] @ post \<and> (\<forall>c \<in> set b. is_space c)
         \<longrightarrow> parseM3U text = parse_lines (pre @ post))
   \<and> (\<forall>e \<in> set (parseM3U text). \<exists>u \<in> set (split_lines text).
         is_url_line u \<and> direct_source e = JStr (trim u))
   \<and> (\<forall>e \<in> set (parseM3U text). \<exists>raw \<in> set (split_lines text).
         is_meta raw
         \<and> title e = trim (drop 1 (dropWhile (\<lambda>x. x \<noteq> COMMA) (drop (length EXTINF) (trim raw)))))"
proof (intro conjI ballI allI impI)
  show "parseM3U text = parse_lines (map trim (split_lines text))"
    by (simp add: parseM3U_def parse_lines_def scan_lines_trimmed)
next
  fix s
  from trim_decomp [of s] obtain a b where
    "s = a @ trim s @ b" "\<forall>c \<in> set a. is_space c" "\<forall>c \<in> set b. is_space c" by blast
  moreover have "trim s = [] \<or> (\<not> is_space (hd (trim s)) \<and> \<not> is_space (last (trim s)))"
    using trim_ends [of s] by blast
  ultimately show "\<exists>a b. s = a @ trim s @ b \<and> (\<forall>c \<in> set a. is_space c) \<and> (\<forall>c \<in> set b. is_space c)
          \<and> (trim s = [] \<or> (\<not> is_space (hd (trim s)) \<and> \<not> is_space (last (trim s))))"
    by blast
next
  fix pre b post
  assume h: "split_lines text = pre @ [b] @ post \<and> (\<forall>c \<in> set b. is_space c)"
  then have "is_blank b" by (simp add: is_blank_def trim_blank_iff)
  then have "scan_lines None [] (pre @ [b] @ post) = scan_lines None [] (pre @ post)"
    by (rule scan_lines_drop_blank)
  with h show "parseM3U text = parse_lines (pre @ post)"
    by (simp add: parseM3U_def parse_lines_def)
next
  fix e
  assume "e \<in> set (parseM3U text)"
  then obtain raw u idx where u: "u \<in> set (split_lines text)" "is_url_line u"
    and e: "e = to_entry ((extinf_entry (trim raw))\<lparr>p_url := JStr (trim u)\<rparr>) idx"
    unfolding parseM3U_def by (blast dest: parse_lines_origin)
  from e have "direct_source e = JStr (trim u)" by (simp add: to_entry_def)
  with u show "\<exists>u \<in> set (split_lines text). is_url_line u \<and> direct_source e = JStr (trim u)"
    by blast
next
  fix e
  assume "e \<in> set (parseM3U text)"
  then obtain raw u idx where raw: "raw \<in> set (split_lines text)" "is_meta raw"
    and e: "e = to_entry ((extinf_entry (trim raw))\<lparr>p_url := JStr (trim u)\<rparr>) idx"
    unfolding parseM3U_def by (blast dest: parse_lines_origin)
  from e have "title e = title_of (trim raw)"
    by (simp add: to_entry_def extinf_entry_def Let_def)
  with raw show "\<exists>raw \<in> set (split_lines text). is_meta raw
         \<and> title e = trim (drop 1 (dropWhile (\<lambda>x. x \<noteq> COMMA) (drop (length EXTINF) (trim raw))))"
    by (auto simp: title_of_after_comma)
qed

text \<open>
  Padded lines and a line with a single space between them: the result is that of
  the two padded lines alone, with title and URL trimmed.
\<close>

theorem parseM3U_trims_lines_witness:
  "parseM3U (ascii '' #EXTINF:, A \<newline> \<newline> u '') = parse_lines [ascii '' #EXTINF:, A '', ascii '' u '']
   \<and> parseM3U (ascii '' #EXTINF:, A \<newline> \<newline> u '')
     = [\<lparr> entry_id = ascii ''1'', stream_id = 1, name = JStr (ascii ''A''), title = ascii ''A'',
          tvg_id = JNull, tvg_logo = JNull, group_title = JStr (ascii ''Other''),
          direct_source = JStr (ascii ''u'') \<rparr>]"
proof -
  let ?T = "ascii '' #EXTINF:, A \<newline> \<newline> u ''"
  have sp: "split_lines ?T = [ascii '' #EXTINF:, A ''] @ [ascii '' ''] @ [ascii '' u '']"
    by (simp add: js_eval is_meta_def)
  have ws: "\<forall>c \<in> set (ascii '' ''). is_space c" by (simp add: js_eval is_meta_def)
  from parseM3U_trims_lines [of ?T]
  have "split_lines ?T = [ascii '' #EXTINF:, A ''] @ [ascii '' ''] @ [ascii '' u '']
         \<and> (\<forall>c \<in> set (ascii '' ''). is_space c)
         \<longrightarrow> parseM3U ?T = parse_lines ([ascii '' #EXTINF:, A ''] @ [ascii '' u ''])"
    by blast
  with sp ws have a: "parseM3U ?T = parse_lines [ascii '' #EXTINF:, A '', ascii '' u '']" by simp
  have b: "parseM3U ?T
     = [\<lparr> entry_id = ascii ''1'', stream_id = 1, name = JStr (ascii ''A''), title = ascii ''A'',
          tvg_id = JNull, tvg_logo = JNull, group_title = JStr (ascii ''Other''),
          direct_source = JStr (ascii ''u'') \<rparr>]"
    by (simp add: js_eval is_meta_def)
  from a b show ?thesis by blast
qed

section \<open>Properties of the access gate\<close>

text \<open>
  C6. With an empty credential mapping the gate admits every user name and
  password. With a non-empty mapping it admits exactly the pairs whose user name
  is in the mapping with a stored password equal to the supplied one; the empty
  password is the case \<open>p = []\<close>. With the mapping \<open>alice \<mapsto> secret\<close>,
  \<open>(alice, secret)\<close> is admitted, \<open>(alice, wrong)\<close> and \<open>(bob, "")\<close> are not.
\<close>

theorem okUserPass_policy:
  "okUserPass [] u pass
   \<and> (m \<noteq> [] \<longrightarrow> (okUserPass m u (JStr p) \<longleftrightarrow> map_of m u = Some p))
   \<and> okUserPass [(ascii ''alice'', ascii ''secret'')] (ascii ''alice'') (JStr (ascii ''secret''))
   \<and> \<not> okUserPass [(ascii ''alice'', ascii ''secret'')] (ascii ''alice'') (JStr (ascii ''wrong''))
   \<and> \<not> okUserPass [(ascii ''alice'', ascii ''secret'')] (ascii ''bob'') (JStr [])"
proof (intro conjI impI)
  show "okUserPass [] u pass" by (simp add: okUserPass_def)
next
  assume "m \<noteq> []"
  then show "okUserPass m u (JStr p) \<longleftrightarrow> map_of m u = Some p"
    by (auto simp: okUserPass_def js_or_def split: option.splits)
next
  show "okUserPass [(ascii ''alice'', ascii ''secret'')] (ascii ''alice'') (JStr (ascii ''secret''))"
    by (simp add: okUserPass_def js_or_def ascii_def)
next
  show "\<not> okUserPass [(ascii ''alice'', ascii ''secret'')] (ascii ''alice'') (JStr (ascii ''wrong''))"
    by (simp add: okUserPass_def js_or_def ascii_def)
next
  show "\<not> okUserPass [(ascii ''alice'', ascii ''secret'')] (ascii ''bob'') (JStr [])"
    by (simp add: okUserPass_def js_or_def ascii_def)
qed

text \<open>An entry configured with the empty password: only the empty password opens it.\<close>

theorem okUserPass_policy_witness:
  "okUserPass [(ascii ''carol'', [])] (ascii ''carol'') (JStr [])
   \<and> \<not> okUserPass [(ascii ''carol'', [])] (ascii ''carol'') (JStr (ascii ''x''))"
proof -
  have ne: "[(ascii ''carol'', [])] \<noteq> ([] :: allow_users)" by simp
  have l1: "map_of [(ascii ''carol'', [])] (ascii ''carol'') = Some []" by simp
  have l2: "map_of [(ascii ''carol'', [])] (ascii ''carol'') \<noteq> Some (ascii ''x'')"
    by (simp add: ascii_def)
  from okUserPass_policy [where m = "[(ascii ''carol'', [])]" and u = "ascii ''carol''" and p = "[]"]
    ne l1
  have a: "okUserPass [(ascii ''carol'', [])] (ascii ''carol'') (JStr [])" by blast
  from okUserPass_policy [where m = "[(ascii ''carol'', [])]" and u = "ascii ''carol''"
      and p = "ascii ''x''"] ne l2
  have b: "\<not> okUserPass [(ascii ''carol'', [])] (ascii ''carol'') (JStr (ascii ''x''))" by blast
  from a b show ?thesis by blast
qed

text \<open>
  C9. A missing password (\<^verbatim>\<open>undefined\<close>, and likewise \<^verbatim>\<open>null\<close>) is judged
  as the empty password. So a request without the password parameter is admitted
  exactly when the mapping is empty or holds the user with the empty password:
  with \<^verbatim>\<open>ALLOW_USERS=bob,alice:secret\<close> that admits \<open>bob\<close> and not
  \<open>alice\<close>, and with \<^verbatim>\<open>ALLOW_USERS\<close> unset it admits everyone.
\<close>

theorem okUserPass_missing_password:
  "okUserPass m u JUndefined = okUserPass m u (JStr [])
   \<and> okUserPass m u JNull = okUserPass m u (JStr [])
   \<and> (request_allowed m (JStr u) JUndefined \<longleftrightarrow> m = [] \<or> map_of m u = Some [])
   \<and> request_allowed (parseAllowUsers (Some (ascii ''bob,alice:secret'')))
        (JStr (ascii ''bob'')) JUndefined
   \<and> \<not> request_allowed (parseAllowUsers (Some (ascii ''bob,alice:secret'')))
        (JStr (ascii ''alice'')) JUndefined
   \<and> request_allowed (parseAllowUsers None) (JStr (ascii ''alice'')) JUndefined"
proof (intro conjI)
  show "okUserPass m u JUndefined = okUserPass m u (JStr [])"
    by (simp add: okUserPass_def js_or_def split: option.splits)
  show "okUserPass m u JNull = okUserPass m u (JStr [])"
    by (simp add: okUserPass_def js_or_def split: option.splits)
  show "request_allowed m (JStr u) JUndefined \<longleftrightarrow> m = [] \<or> map_of m u = Some []"
    by (auto simp: request_allowed_def okUserPass_def js_or_def split: option.splits)
  show "request_allowed (parseAllowUsers (Some (ascii ''bob,alice:secret'')))
        (JStr (ascii ''bob'')) JUndefined"
    by (simp add: js_eval)
  show "\<not> request_allowed (parseAllowUsers (Some (ascii ''bob,alice:secret'')))
        (JStr (ascii ''alice'')) JUndefined"
    by (simp add: js_eval)
  show "request_allowed (parseAllowUsers None) (JStr (ascii ''alice'')) JUndefined"
    by (simp add: js_eval)
qed

section \<open>Properties of the raw-playlist response\<close>

text \<open>
  C8. Whatever the fetched text and the two parameters, the body starts with
  \<^verbatim>\<open>#EXTM3U\<close>: it is the text after the two substitutions when that already
  starts with the marker, and the marker, a line feed and that text otherwise.
\<close>

theorem playlist_body_header:
  "startsWith (playlist_body m3u username password) EXTM3U
   \<and> playlist_body m3u username password =
       (let substituted = replaceAll (replaceAll m3u (ascii ''{{username}}'') username)
                                     (ascii ''{{password}}'') password
        in if startsWith substituted EXTM3U then substituted else EXTM3U @ [LF] @ substituted)
   \<and> playlist_body (ascii ''http://h/{{username}}/{{password}}/1'') (ascii ''al'') (ascii ''pw'')
       = ascii ''#EXTM3U\<newline>http://h/al/pw/1''"
proof (intro conjI)
  show "startsWith (playlist_body m3u username password) EXTM3U"
    by (simp add: playlist_body_def startsWith_def Let_def)
  show "playlist_body m3u username password =
       (let substituted = replaceAll (replaceAll m3u (ascii ''{{username}}'') username)
                                     (ascii ''{{password}}'') password
        in if startsWith substituted EXTM3U then substituted else EXTM3U @ [LF] @ substituted)"
    by (simp add: playlist_body_def Let_def)
  show "playlist_body (ascii ''http://h/{{username}}/{{password}}/1'') (ascii ''al'') (ascii ''pw'')
       = ascii ''#EXTM3U\<newline>http://h/al/pw/1''"
    by (simp add: js_eval)
qed

end
